theory Spec2Isabelle
  imports Main "HOL-Library.AList"
begin

section \<open>The chained key-value store of pkg/kvstore (ChainKvStore)\<close>

text \<open>
  The engine composes an ordered chain of backing stores and an optional cache of keys
  known to be missing. The five operations \<open>Contains\<close>, \<open>Get\<close>, \<open>GetBatch\<close>,
  \<open>Put\<close> and \<open>PutBatch\<close> are embedded below as state-passing functions, one
  definition per Go method, with every loop of the source as a recursive function of its
  own.
\<close>

subsection \<open>Dynamic values\<close>

text \<open>
  Keys and values are \<^verbatim>\<open>interface{}\<close> in the source. A key is hashable; it is a Go
  string or a value of another type (an integer stands for those). A value is a user
  value or the private sentinel \<^verbatim>\<open>noValue\<close>. A payload is a caller-supplied collection
  handed over as \<^verbatim>\<open>interface{}\<close>: a slice of keys, a map, or something that is neither.
  A Go map is an association list that is read through \<open>map_of\<close> and written through
  \<open>AList.update\<close>; ranging over a map visits each of its keys once (\<open>range_keys\<close>).
\<close>

datatype key = KString string | KInt int

datatype val = noValue | VInt int | VString string

datatype payload = PSlice "key list" | PMap "(key \<times> val) list" | PScalar val

definition range_keys :: "('a \<times> 'b) list \<Rightarrow> 'a list" where
  "range_keys m = remdups (map fst m)"

definition populated :: "payload \<Rightarrow> key \<Rightarrow> bool" where
  "populated values k = (case values of PMap m \<Rightarrow> map_of m k \<noteq> None | _ \<Rightarrow> False)"

subsection \<open>Errors and warnings\<close>

text \<open>
  \<open>Err\<close> is an opaque error of a store, of the missing cache or of a reflection helper.
  The other constructors are the engine's \<^verbatim>\<open>fmt.Errorf\<close> wrappers, one per format
  string, carrying the key, the store's type (\<^verbatim>\<open>%T\<close>) and the wrapped error.
\<close>

datatype error =
    Err string
  | CouldNotCheckExistence key string error
  | CouldNotGet key string error
  | CanNotMorphKeys error
  | CouldNotGetBatch string error
  | CanNotCastResultValues error
  | CouldNotPut key string error
  | CouldNotPutBatch string error
  | CanNotCastValues error

datatype warning =
    FailedToReadFromMissingValueCache error
  | FailedToWriteToMissingValueCache error
  | CouldNotCheckExistenceWarning key string error
  | CouldNotGetWarning key string error
  | CouldNotPutWarning key string error
  | CouldNotGetBatchWarning string error
  | CouldNotPutBatchWarning string error
  | CouldNotPutBatchToEmptyValueCache error
  | CouldNotEraseCachedEmptyValue key error

subsection \<open>Reflection helpers\<close>

text \<open>
  Modelled from the spec: package \<^verbatim>\<open>refl\<close> is not among the source files. The spec
  says that a caller's keys or values either normalize to an iterable (keyed) form or
  the coercion fails; a slice normalizes to its sequence of keys and a map to its keyed
  form, anything else is a failure.
\<close>

definition InterfaceToInterfaceSlice :: "payload \<Rightarrow> error + key list" where
  "InterfaceToInterfaceSlice p =
     (case p of PSlice ks \<Rightarrow> Inr ks | _ \<Rightarrow> Inl (Err ''input is not a slice''))"

definition InterfaceToMapInterfaceInterface :: "payload \<Rightarrow> error + (key \<times> val) list" where
  "InterfaceToMapInterfaceInterface p =
     (case p of PMap m \<Rightarrow> Inr m | _ \<Rightarrow> Inl (Err ''input is not a map''))"

subsection \<open>Stores\<close>

text \<open>
  The \<^verbatim>\<open>KvStore\<close> interface is declared outside the source files; its methods are
  taken as parameters. A store is a method table over a store state \<open>'s\<close>; a method
  takes the state and returns its Go results together with the new state. A method that
  returns \<^verbatim>\<open>(x, error)\<close> returns the pair as it is, since the engine reads both
  results. \<open>kvGet\<close> takes the content of the destination and returns the new content;
  \<open>kvGetBatch\<close> does the same with the destination container. The engine never calls
  \<^verbatim>\<open>Delete\<close> on a store of the chain, so the table has no such entry.
\<close>

record 's KvStore =
  kvType :: string
  kvContains :: "key \<Rightarrow> 's \<Rightarrow> (bool \<times> error option) \<times> 's"
  kvGet :: "key \<Rightarrow> val \<Rightarrow> 's \<Rightarrow> ((bool \<times> error option) \<times> val) \<times> 's"
  kvGetBatch :: "key list \<Rightarrow> payload \<Rightarrow> 's \<Rightarrow> ((key list \<times> error option) \<times> payload) \<times> 's"
  kvPut :: "key \<Rightarrow> val \<Rightarrow> 's \<Rightarrow> error option \<times> 's"
  kvPutBatch :: "payload \<Rightarrow> 's \<Rightarrow> error option \<times> 's"

text \<open>
  The missing cache is an \<^verbatim>\<open>*InMemoryKvStore\<close>, also outside the source files. Its
  methods are parameters too, typed as the engine calls them: \<open>mcGetBatch\<close> fills a
  \<^verbatim>\<open>map[string]interface{}\<close>, \<open>mcPutBatch\<close> takes a
  \<^verbatim>\<open>map[interface{}]interface{}\<close>.
\<close>

record 'm InMemoryKvStore =
  mcContains :: "key \<Rightarrow> 'm \<Rightarrow> (bool \<times> error option) \<times> 'm"
  mcPut :: "key \<Rightarrow> val \<Rightarrow> 'm \<Rightarrow> error option \<times> 'm"
  mcGetBatch :: "key list \<Rightarrow> (string \<times> val) list \<Rightarrow> 'm
                  \<Rightarrow> ((key list \<times> error option) \<times> (string \<times> val) list) \<times> 'm"
  mcPutBatch :: "(key \<times> val) list \<Rightarrow> 'm \<Rightarrow> error option \<times> 'm"
  mcDelete :: "key \<Rightarrow> 'm \<Rightarrow> error option \<times> 'm"

subsection \<open>The engine's state\<close>

text \<open>
  \<open>calls\<close> is the sequence of method calls the engine has made on its stores and on
  the missing cache, in order; \<open>logger\<close> is the sequence of warnings it has logged.
  An element of the chain is a method table with the store's current state. A
  \<open>GetBatchCall\<close> records the keys asked for, the destination as the call left it, the
  keys the call returned as missing, and its error.
\<close>

datatype target = Tier int | MissingCache

datatype call =
    ContainsCall target key
  | GetCall target key
  | GetBatchCall target "key list" payload "key list" "error option"
  | PutCall target key val
  | PutBatchCall target payload
  | DeleteCall target key

record ('s, 'm) ChainKvStore =
  logger :: "warning list"
  chain :: "('s KvStore \<times> 's) list"
  missingCacheEnabled :: bool
  missingCache :: "'m InMemoryKvStore \<times> 'm"
  calls :: "call list"

definition NewChainKvStoreWithInterfaces ::
  "bool \<Rightarrow> 'm InMemoryKvStore \<times> 'm \<Rightarrow> ('s, 'm) ChainKvStore" where
  "NewChainKvStoreWithInterfaces enabled cache =
     \<lparr>logger = [], chain = [], missingCacheEnabled = enabled, missingCache = cache, calls = []\<rparr>"

definition AddStore :: "'s KvStore \<times> 's \<Rightarrow> ('s, 'm) ChainKvStore \<Rightarrow> ('s, 'm) ChainKvStore" where
  "AddStore store s = s\<lparr>chain := chain s @ [store]\<rparr>"

definition Warnf :: "warning \<Rightarrow> ('s, 'm) ChainKvStore \<Rightarrow> ('s, 'm) ChainKvStore" where
  "Warnf w s = s\<lparr>logger := logger s @ [w]\<rparr>"

definition element_type :: "int \<Rightarrow> ('s, 'm) ChainKvStore \<Rightarrow> string" where
  "element_type i s = kvType (fst (chain s ! nat i))"

subsection \<open>Method calls on the chain and on the missing cache\<close>

definition element_Contains ::
  "int \<Rightarrow> key \<Rightarrow> ('s, 'm) ChainKvStore \<Rightarrow> (bool \<times> error option) \<times> ('s, 'm) ChainKvStore" where
  "element_Contains i k s =
     (case chain s ! nat i of (el, st) \<Rightarrow>
        (case kvContains el k st of (r, st') \<Rightarrow>
           (r, s\<lparr>chain := (chain s)[nat i := (el, st')],
                 calls := calls s @ [ContainsCall (Tier i) k]\<rparr>)))"

definition element_Get ::
  "int \<Rightarrow> key \<Rightarrow> val \<Rightarrow> ('s, 'm) ChainKvStore
     \<Rightarrow> ((bool \<times> error option) \<times> val) \<times> ('s, 'm) ChainKvStore" where
  "element_Get i k v s =
     (case chain s ! nat i of (el, st) \<Rightarrow>
        (case kvGet el k v st of (r, st') \<Rightarrow>
           (r, s\<lparr>chain := (chain s)[nat i := (el, st')],
                 calls := calls s @ [GetCall (Tier i) k]\<rparr>)))"

definition element_GetBatch ::
  "int \<Rightarrow> key list \<Rightarrow> payload \<Rightarrow> ('s, 'm) ChainKvStore
     \<Rightarrow> ((key list \<times> error option) \<times> payload) \<times> ('s, 'm) ChainKvStore" where
  "element_GetBatch i todo values s =
     (case chain s ! nat i of (el, st) \<Rightarrow>
        (case kvGetBatch el todo values st of (((missing, err), values'), st') \<Rightarrow>
           (((missing, err), values'),
            s\<lparr>chain := (chain s)[nat i := (el, st')],
              calls := calls s @ [GetBatchCall (Tier i) todo values' missing err]\<rparr>)))"

definition element_Put ::
  "int \<Rightarrow> key \<Rightarrow> val \<Rightarrow> ('s, 'm) ChainKvStore \<Rightarrow> error option \<times> ('s, 'm) ChainKvStore" where
  "element_Put i k v s =
     (case chain s ! nat i of (el, st) \<Rightarrow>
        (case kvPut el k v st of (err, st') \<Rightarrow>
           (err, s\<lparr>chain := (chain s)[nat i := (el, st')],
                   calls := calls s @ [PutCall (Tier i) k v]\<rparr>)))"

definition element_PutBatch ::
  "int \<Rightarrow> payload \<Rightarrow> ('s, 'm) ChainKvStore \<Rightarrow> error option \<times> ('s, 'm) ChainKvStore" where
  "element_PutBatch i values s =
     (case chain s ! nat i of (el, st) \<Rightarrow>
        (case kvPutBatch el values st of (err, st') \<Rightarrow>
           (err, s\<lparr>chain := (chain s)[nat i := (el, st')],
                   calls := calls s @ [PutBatchCall (Tier i) values]\<rparr>)))"

definition missingCache_Contains ::
  "key \<Rightarrow> ('s, 'm) ChainKvStore \<Rightarrow> (bool \<times> error option) \<times> ('s, 'm) ChainKvStore" where
  "missingCache_Contains k s =
     (case missingCache s of (mc, m) \<Rightarrow>
        (case mcContains mc k m of (r, m') \<Rightarrow>
           (r, s\<lparr>missingCache := (mc, m'),
                 calls := calls s @ [ContainsCall MissingCache k]\<rparr>)))"

definition missingCache_Put ::
  "key \<Rightarrow> val \<Rightarrow> ('s, 'm) ChainKvStore \<Rightarrow> error option \<times> ('s, 'm) ChainKvStore" where
  "missingCache_Put k v s =
     (case missingCache s of (mc, m) \<Rightarrow>
        (case mcPut mc k v m of (err, m') \<Rightarrow>
           (err, s\<lparr>missingCache := (mc, m'),
                   calls := calls s @ [PutCall MissingCache k v]\<rparr>)))"

definition missingCache_GetBatch ::
  "key list \<Rightarrow> (string \<times> val) list \<Rightarrow> ('s, 'm) ChainKvStore
     \<Rightarrow> ((key list \<times> error option) \<times> (string \<times> val) list) \<times> ('s, 'm) ChainKvStore" where
  "missingCache_GetBatch todo values s =
     (case missingCache s of (mc, m) \<Rightarrow>
        (case mcGetBatch mc todo values m of (((missing, err), values'), m') \<Rightarrow>
           (((missing, err), values'),
            s\<lparr>missingCache := (mc, m'),
              calls := calls s @
                [GetBatchCall MissingCache todo
                   (PMap (map (\<lambda>(k, v). (KString k, v)) values')) missing err]\<rparr>)))"

definition missingCache_PutBatch ::
  "(key \<times> val) list \<Rightarrow> ('s, 'm) ChainKvStore \<Rightarrow> error option \<times> ('s, 'm) ChainKvStore" where
  "missingCache_PutBatch values s =
     (case missingCache s of (mc, m) \<Rightarrow>
        (case mcPutBatch mc values m of (err, m') \<Rightarrow>
           (err, s\<lparr>missingCache := (mc, m'),
                   calls := calls s @ [PutBatchCall MissingCache (PMap values)]\<rparr>)))"

definition missingCache_Delete ::
  "key \<Rightarrow> ('s, 'm) ChainKvStore \<Rightarrow> error option \<times> ('s, 'm) ChainKvStore" where
  "missingCache_Delete k s =
     (case missingCache s of (mc, m) \<Rightarrow>
        (case mcDelete mc k m of (err, m') \<Rightarrow>
           (err, s\<lparr>missingCache := (mc, m'),
                   calls := calls s @ [DeleteCall MissingCache k]\<rparr>)))"

subsection \<open>Contains\<close>

text \<open>
  Both \<^verbatim>\<open>Contains\<close> and \<^verbatim>\<open>Get\<close> open with the same lookup in the missing cache
  and close a miss with the same write of the sentinel; the two blocks are
  \<open>missingCache_lookup\<close> and \<open>missingCache_record\<close>. A loop
  \<^verbatim>\<open>for i, element := range s.chain\<close> runs \<open>i\<close> from 0 to
  \<^verbatim>\<open>len(s.chain) - 1\<close>, which the source names \<open>lastElementIndex\<close>; the index is an
  \<open>int\<close>, so that it is -1 for the empty chain.
\<close>

definition missingCache_lookup :: "key \<Rightarrow> ('s, 'm) ChainKvStore \<Rightarrow> bool \<times> ('s, 'm) ChainKvStore" where
  "missingCache_lookup k s =
     (case missingCache_Contains k s of ((found, err), s1) \<Rightarrow>
        (found, case err of Some e \<Rightarrow> Warnf (FailedToReadFromMissingValueCache e) s1 | None \<Rightarrow> s1))"

definition missingCache_record :: "key \<Rightarrow> ('s, 'm) ChainKvStore \<Rightarrow> ('s, 'm) ChainKvStore" where
  "missingCache_record k s =
     (case missingCache_Put k noValue s of (err, s1) \<Rightarrow>
        (case err of Some e \<Rightarrow> Warnf (FailedToWriteToMissingValueCache e) s1 | None \<Rightarrow> s1))"

function Contains_walk ::
  "key \<Rightarrow> int \<Rightarrow> int \<Rightarrow> ('s, 'm) ChainKvStore \<Rightarrow> (error + bool) \<times> ('s, 'm) ChainKvStore" where
  "Contains_walk k lastElementIndex i s =
     (if i \<le> lastElementIndex then
        (case element_Contains i k s of ((found, err), s1) \<Rightarrow>
           (case err of
              Some e \<Rightarrow>
                if i = lastElementIndex
                then (Inl (CouldNotCheckExistence k (element_type i s) e), s1)
                else if found
                then (Inr True, Warnf (CouldNotCheckExistenceWarning k (element_type i s) e) s1)
                else Contains_walk k lastElementIndex (i + 1)
                       (Warnf (CouldNotCheckExistenceWarning k (element_type i s) e) s1)
            | None \<Rightarrow>
                if found then (Inr True, s1)
                else Contains_walk k lastElementIndex (i + 1) s1))
      else (Inr False, s))"
  by pat_completeness auto
termination
  by (relation "measure (\<lambda>(k, lastElementIndex, i, s). nat (lastElementIndex + 1 - i))") auto

definition Contains :: "key \<Rightarrow> ('s, 'm) ChainKvStore \<Rightarrow> (error + bool) \<times> ('s, 'm) ChainKvStore" where
  "Contains k s =
     (let lastElementIndex = int (length (chain s)) - 1 in
      case (if missingCacheEnabled s then missingCache_lookup k s else (False, s)) of
        (cached, s1) \<Rightarrow>
          if cached then (Inr False, s1)
          else (case Contains_walk k lastElementIndex 0 s1 of
                  (Inl e, s2) \<Rightarrow> (Inl e, s2)
                | (Inr True, s2) \<Rightarrow> (Inr True, s2)
                | (Inr False, s2) \<Rightarrow>
                    (Inr False, if missingCacheEnabled s2 then missingCache_record k s2 else s2)))"

subsection \<open>Get\<close>

text \<open>
  The walk returns the error of the last store, or \<open>exists\<close> with \<open>foundInIndex\<close>;
  the destination \<open>value\<close> is threaded through the stores, each of which may write it.
\<close>

function Get_walk ::
  "key \<Rightarrow> int \<Rightarrow> int \<Rightarrow> val \<Rightarrow> ('s, 'm) ChainKvStore
     \<Rightarrow> ((error + bool \<times> int) \<times> val) \<times> ('s, 'm) ChainKvStore" where
  "Get_walk k lastElementIndex i v s =
     (if i \<le> lastElementIndex then
        (case element_Get i k v s of (((found, err), v1), s1) \<Rightarrow>
           (case err of
              Some e \<Rightarrow>
                if i = lastElementIndex
                then ((Inl (CouldNotGet k (element_type i s) e), v1), s1)
                else if found
                then ((Inr (True, i), v1), Warnf (CouldNotGetWarning k (element_type i s) e) s1)
                else Get_walk k lastElementIndex (i + 1) v1
                       (Warnf (CouldNotGetWarning k (element_type i s) e) s1)
            | None \<Rightarrow>
                if found then ((Inr (True, i), v1), s1)
                else Get_walk k lastElementIndex (i + 1) v1 s1))
      else ((Inr (False, lastElementIndex + 1), v), s))"
  by pat_completeness auto
termination
  by (relation "measure (\<lambda>(k, lastElementIndex, i, v, s). nat (lastElementIndex + 1 - i))") auto

function Get_propagate :: "key \<Rightarrow> val \<Rightarrow> int \<Rightarrow> ('s, 'm) ChainKvStore \<Rightarrow> ('s, 'm) ChainKvStore" where
  "Get_propagate k v i s =
     (if i \<ge> 0 then
        (case element_Put i k v s of (err, s1) \<Rightarrow>
           Get_propagate k v (i - 1)
             (case err of Some e \<Rightarrow> Warnf (CouldNotPutWarning k (element_type i s) e) s1
                        | None \<Rightarrow> s1))
      else s)"
  by pat_completeness auto
termination
  by (relation "measure (\<lambda>(k, v, i, s). nat (i + 1))") auto

definition Get ::
  "key \<Rightarrow> val \<Rightarrow> ('s, 'm) ChainKvStore \<Rightarrow> ((error + bool) \<times> val) \<times> ('s, 'm) ChainKvStore" where
  "Get k v s =
     (case (if missingCacheEnabled s then missingCache_lookup k s else (False, s)) of
        (cached, s1) \<Rightarrow>
          if cached then ((Inr False, v), s1)
          else
            (let lastElementIndex = int (length (chain s1)) - 1 in
             case Get_walk k lastElementIndex 0 v s1 of
               ((Inl e, v1), s2) \<Rightarrow> ((Inl e, v1), s2)
             | ((Inr (found, foundInIndex), v1), s2) \<Rightarrow>
                 (let s3 = (if missingCacheEnabled s2 \<and> \<not> found
                            then missingCache_record k s2 else s2)
                  in if \<not> found then ((Inr False, v1), s3)
                     else ((Inr True, v1), Get_propagate k v1 (foundInIndex - 1) s3))))"

subsection \<open>GetBatch\<close>

text \<open>
  \<open>refill\<close> is the source's \<^verbatim>\<open>map[int][]interface{}\<close>: an index that was never
  written reads as the empty slice. The walk returns the error of the last store, or the
  final \<open>todo\<close>, \<open>refill\<close> and \<open>foundInIndex\<close>; the destination \<open>values\<close> is threaded
  through the stores.
\<close>

function GetBatch_walk ::
  "int \<Rightarrow> int \<Rightarrow> key list \<Rightarrow> payload \<Rightarrow> (int \<Rightarrow> key list) \<Rightarrow> ('s, 'm) ChainKvStore
     \<Rightarrow> ((error + key list \<times> (int \<Rightarrow> key list) \<times> int) \<times> payload) \<times> ('s, 'm) ChainKvStore" where
  "GetBatch_walk lastElementIndex i todo values refill s =
     (if i \<le> lastElementIndex then
        (case element_GetBatch i todo values s of (((missing, err), values1), s1) \<Rightarrow>
           (case err of
              Some e \<Rightarrow>
                if i = lastElementIndex
                then ((Inl (CouldNotGetBatch (element_type i s) e), values1), s1)
                else if length todo = 0
                then ((Inr (todo, refill(i := todo), i), values1),
                      Warnf (CouldNotGetBatchWarning (element_type i s) e) s1)
                else GetBatch_walk lastElementIndex (i + 1) todo values1 (refill(i := todo))
                       (Warnf (CouldNotGetBatchWarning (element_type i s) e) s1)
            | None \<Rightarrow>
                if length missing = 0
                then ((Inr (missing, refill(i := missing), i), values1), s1)
                else GetBatch_walk lastElementIndex (i + 1) missing values1
                       (refill(i := missing)) s1))
      else ((Inr (todo, refill, lastElementIndex + 1), values), s))"
  by pat_completeness auto
termination
  by (relation "measure (\<lambda>(lastElementIndex, i, todo, values, refill, s).
                            nat (lastElementIndex + 1 - i))") auto

definition missingInElement :: "key list \<Rightarrow> (key \<times> val) list \<Rightarrow> (key \<times> val) list" where
  "missingInElement ks mii =
     fold (\<lambda>k m. case map_of mii k of Some v \<Rightarrow> AList.update k v m | None \<Rightarrow> m) ks []"

function GetBatch_propagate ::
  "(int \<Rightarrow> key list) \<Rightarrow> (key \<times> val) list \<Rightarrow> int \<Rightarrow> ('s, 'm) ChainKvStore \<Rightarrow> ('s, 'm) ChainKvStore" where
  "GetBatch_propagate refill mii i s =
     (if i \<ge> 0 then
        (if length (refill i) = 0 then GetBatch_propagate refill mii (i - 1) s
         else if length (missingInElement (refill i) mii) = 0
         then GetBatch_propagate refill mii (i - 1) s
         else (case element_PutBatch i (PMap (missingInElement (refill i) mii)) s of (err, s1) \<Rightarrow>
                 GetBatch_propagate refill mii (i - 1)
                   (case err of Some e \<Rightarrow> Warnf (CouldNotPutBatchWarning (element_type i s) e) s1
                              | None \<Rightarrow> s1)))
      else s)"
  by pat_completeness auto
termination
  by (relation "measure (\<lambda>(refill, mii, i, s). nat (i + 1))") auto

definition missingValues :: "key list \<Rightarrow> (key \<times> val) list" where
  "missingValues todo = fold (\<lambda>k m. AList.update k noValue m) todo []"

definition GetBatch_cached ::
  "key list \<Rightarrow> ('s, 'm) ChainKvStore \<Rightarrow> (key list \<times> key list) \<times> ('s, 'm) ChainKvStore" where
  "GetBatch_cached todo s =
     (if missingCacheEnabled s then
        (case missingCache_GetBatch todo [] s of (((todo1, err), cachedMissingMap), s1) \<Rightarrow>
           ((todo1, map KString (range_keys cachedMissingMap)),
            case err of Some e \<Rightarrow> Warnf (FailedToReadFromMissingValueCache e) s1 | None \<Rightarrow> s1))
      else ((todo, []), s))"

definition GetBatch_store_missing :: "key list \<Rightarrow> ('s, 'm) ChainKvStore \<Rightarrow> ('s, 'm) ChainKvStore" where
  "GetBatch_store_missing todo s =
     (if missingCacheEnabled s \<and> length todo > 0 then
        (case missingCache_PutBatch (missingValues todo) s of (err, s1) \<Rightarrow>
           (case err of Some e \<Rightarrow> Warnf (CouldNotPutBatchToEmptyValueCache e) s1 | None \<Rightarrow> s1))
      else s)"

definition GetBatch ::
  "payload \<Rightarrow> payload \<Rightarrow> ('s, 'm) ChainKvStore
     \<Rightarrow> ((error + key list) \<times> payload) \<times> ('s, 'm) ChainKvStore" where
  "GetBatch keys values s =
     (case InterfaceToInterfaceSlice keys of
        Inl err \<Rightarrow> ((Inl (CanNotMorphKeys err), values), s)
      | Inr todo0 \<Rightarrow>
          (case GetBatch_cached todo0 s of ((todo, cachedMissing), s1) \<Rightarrow>
             if length todo = 0 then ((Inr cachedMissing, values), s1)
             else
               (let lastElementIndex = int (length (chain s1)) - 1 in
                case GetBatch_walk lastElementIndex 0 todo values (\<lambda>i. []) s1 of
                  ((Inl e, values1), s2) \<Rightarrow> ((Inl e, values1), s2)
                | ((Inr (todo1, refill, foundInIndex), values1), s2) \<Rightarrow>
                    (case InterfaceToMapInterfaceInterface values1 of
                       Inl err \<Rightarrow> ((Inl (CanNotCastResultValues err), values1), s2)
                     | Inr mii \<Rightarrow>
                         ((Inr (todo1 @ cachedMissing), values1),
                          GetBatch_store_missing todo1
                            (GetBatch_propagate refill mii (foundInIndex - 1) s2))))))"

subsection \<open>Put and PutBatch\<close>

function Put_loop ::
  "key \<Rightarrow> val \<Rightarrow> int \<Rightarrow> int \<Rightarrow> ('s, 'm) ChainKvStore \<Rightarrow> error option \<times> ('s, 'm) ChainKvStore" where
  "Put_loop k v lastElementIndex i s =
     (if i \<le> lastElementIndex then
        (case element_Put i k v s of (err, s1) \<Rightarrow>
           (case err of
              Some e \<Rightarrow>
                if i = lastElementIndex then (Some (CouldNotPut k (element_type i s) e), s1)
                else Put_loop k v lastElementIndex (i + 1)
                       (Warnf (CouldNotPutWarning k (element_type i s) e) s1)
            | None \<Rightarrow> Put_loop k v lastElementIndex (i + 1) s1))
      else (None, s))"
  by pat_completeness auto
termination
  by (relation "measure (\<lambda>(k, v, lastElementIndex, i, s). nat (lastElementIndex + 1 - i))") auto

definition missingCache_erase :: "key \<Rightarrow> ('s, 'm) ChainKvStore \<Rightarrow> ('s, 'm) ChainKvStore" where
  "missingCache_erase k s =
     (case missingCache_Delete k s of (err, s1) \<Rightarrow>
        (case err of Some e \<Rightarrow> Warnf (CouldNotEraseCachedEmptyValue k e) s1 | None \<Rightarrow> s1))"

definition Put :: "key \<Rightarrow> val \<Rightarrow> ('s, 'm) ChainKvStore \<Rightarrow> error option \<times> ('s, 'm) ChainKvStore" where
  "Put k v s =
     (let lastElementIndex = int (length (chain s)) - 1 in
      case Put_loop k v lastElementIndex 0 s of
        (Some e, s1) \<Rightarrow> (Some e, s1)
      | (None, s1) \<Rightarrow>
          (None, if missingCacheEnabled s1 then missingCache_erase k s1 else s1))"

function PutBatch_loop ::
  "payload \<Rightarrow> int \<Rightarrow> int \<Rightarrow> ('s, 'm) ChainKvStore \<Rightarrow> error option \<times> ('s, 'm) ChainKvStore" where
  "PutBatch_loop values lastElementIndex i s =
     (if i \<le> lastElementIndex then
        (case element_PutBatch i values s of (err, s1) \<Rightarrow>
           (case err of
              Some e \<Rightarrow>
                if i = lastElementIndex then (Some (CouldNotPutBatch (element_type i s) e), s1)
                else PutBatch_loop values lastElementIndex (i + 1)
                       (Warnf (CouldNotPutBatchWarning (element_type i s) e) s1)
            | None \<Rightarrow> PutBatch_loop values lastElementIndex (i + 1) s1))
      else (None, s))"
  by pat_completeness auto
termination
  by (relation "measure (\<lambda>(values, lastElementIndex, i, s). nat (lastElementIndex + 1 - i))") auto

definition PutBatch :: "payload \<Rightarrow> ('s, 'm) ChainKvStore \<Rightarrow> error option \<times> ('s, 'm) ChainKvStore" where
  "PutBatch values s =
     (let lastElementIndex = int (length (chain s)) - 1 in
      case PutBatch_loop values lastElementIndex 0 s of
        (Some e, s1) \<Rightarrow> (Some e, s1)
      | (None, s1) \<Rightarrow>
          if missingCacheEnabled s1 then
            (case InterfaceToMapInterfaceInterface values of
               Inl err \<Rightarrow> (Some (CanNotCastValues err), s1)
             | Inr mii \<Rightarrow> (None, fold missingCache_erase (range_keys mii) s1))
          else (None, s1))"

subsection \<open>Stores and caches for the examples\<close>

text \<open>
  The scenarios of the specification run on three stores over an association list:
  \<open>map_store\<close> keeps what is put and finds what it keeps (it reads the destination of a
  batch only when it has something to write), \<open>broken_store\<close> fails every call, and
  \<open>blackhole_store\<close> accepts every write, keeps nothing and never fails. The missing
  cache of the examples, \<open>string_cache\<close>, keys its entries by the key's string form, as
  its \<^verbatim>\<open>map[string]interface{}\<close> destination asks for, and \<open>broken_cache\<close> fails
  every call, returning a nil slice with its error.
\<close>

definition digit_char :: "nat \<Rightarrow> char" where
  "digit_char n = ''0123456789'' ! n"

function decimal :: "nat \<Rightarrow> string" where
  "decimal n = (if n < 10 then [digit_char n] else decimal (n div 10) @ [digit_char (n mod 10)])"
  by pat_completeness auto
termination
  by (relation "measure id") auto

definition KeyToString :: "key \<Rightarrow> string" where
  "KeyToString k =
     (case k of
        KString s \<Rightarrow> s
      | KInt n \<Rightarrow> if n < 0 then CHR ''-'' # decimal (nat (- n)) else decimal (nat n))"

definition map_store :: "string \<Rightarrow> (key \<times> val) list KvStore" where
  "map_store name =
     \<lparr>kvType = name,
      kvContains = (\<lambda>k st. ((map_of st k \<noteq> None, None), st)),
      kvGet = (\<lambda>k v st.
         (case map_of st k of Some x \<Rightarrow> ((True, None), x) | None \<Rightarrow> ((False, None), v), st)),
      kvGetBatch = (\<lambda>todo values st.
         if list_all (\<lambda>k. map_of st k = None) todo then (((todo, None), values), st)
         else (case values of
                 PMap m \<Rightarrow>
                   (((filter (\<lambda>k. map_of st k = None) todo, None),
                     PMap (fold (\<lambda>k r. case map_of st k of
                                          Some x \<Rightarrow> AList.update k x r | None \<Rightarrow> r) todo m)),
                    st)
               | _ \<Rightarrow> ((([], Some (Err ''values is not a map'')), values), st))),
      kvPut = (\<lambda>k v st. (None, AList.update k v st)),
      kvPutBatch = (\<lambda>values st.
         case values of
           PMap m \<Rightarrow> (None, fold (\<lambda>(k, v). AList.update k v) m st)
         | _ \<Rightarrow> (Some (Err ''values is not a map''), st))\<rparr>"

definition broken_store :: "string \<Rightarrow> (key \<times> val) list KvStore" where
  "broken_store name =
     \<lparr>kvType = name,
      kvContains = (\<lambda>k st. ((False, Some (Err ''unavailable'')), st)),
      kvGet = (\<lambda>k v st. (((False, Some (Err ''unavailable'')), v), st)),
      kvGetBatch = (\<lambda>todo values st. ((([], Some (Err ''unavailable'')), values), st)),
      kvPut = (\<lambda>k v st. (Some (Err ''unavailable''), st)),
      kvPutBatch = (\<lambda>values st. (Some (Err ''unavailable''), st))\<rparr>"

definition blackhole_store :: "string \<Rightarrow> (key \<times> val) list KvStore" where
  "blackhole_store name =
     \<lparr>kvType = name,
      kvContains = (\<lambda>k st. ((False, None), st)),
      kvGet = (\<lambda>k v st. (((False, None), v), st)),
      kvGetBatch = (\<lambda>todo values st. (((todo, None), values), st)),
      kvPut = (\<lambda>k v st. (None, st)),
      kvPutBatch = (\<lambda>values st. (None, st))\<rparr>"

definition string_cache :: "(string \<times> val) list InMemoryKvStore" where
  "string_cache =
     \<lparr>mcContains = (\<lambda>k m. ((map_of m (KeyToString k) \<noteq> None, None), m)),
      mcPut = (\<lambda>k v m. (None, AList.update (KeyToString k) v m)),
      mcGetBatch = (\<lambda>todo values m.
         (((filter (\<lambda>k. map_of m (KeyToString k) = None) todo, None),
           fold (\<lambda>k r. case map_of m (KeyToString k) of
                          Some x \<Rightarrow> AList.update (KeyToString k) x r | None \<Rightarrow> r) todo values),
          m)),
      mcPutBatch = (\<lambda>values m.
         (None, fold (\<lambda>(k, v). AList.update (KeyToString k) v) values m)),
      mcDelete = (\<lambda>k m. (None, AList.delete (KeyToString k) m))\<rparr>"

definition broken_cache :: "(string \<times> val) list InMemoryKvStore" where
  "broken_cache =
     \<lparr>mcContains = (\<lambda>k m. ((False, Some (Err ''unavailable'')), m)),
      mcPut = (\<lambda>k v m. (Some (Err ''unavailable''), m)),
      mcGetBatch = (\<lambda>todo values m. ((([], Some (Err ''unavailable'')), values), m)),
      mcPutBatch = (\<lambda>values m. (Some (Err ''unavailable''), m)),
      mcDelete = (\<lambda>k m. (Some (Err ''unavailable''), m))\<rparr>"

definition engine ::
  "bool \<Rightarrow> (string \<times> val) list InMemoryKvStore \<times> (string \<times> val) list
     \<Rightarrow> ((key \<times> val) list KvStore \<times> (key \<times> val) list) list
     \<Rightarrow> ((key \<times> val) list, (string \<times> val) list) ChainKvStore" where
  "engine enabled cache stores = fold AddStore stores (NewChainKvStoreWithInterfaces enabled cache)"

subsection \<open>Observations\<close>

text \<open>
  \<open>new_calls s s'\<close> are the calls an operation made when it took the engine from \<open>s\<close>
  to \<open>s'\<close>. \<open>negative_cache_contains s k\<close> is what the missing cache of \<open>s\<close> answers
  when asked whether it holds \<open>k\<close>.
\<close>

definition new_calls :: "('s, 'm) ChainKvStore \<Rightarrow> ('s, 'm) ChainKvStore \<Rightarrow> call list" where
  "new_calls s s' = drop (length (calls s)) (calls s')"

definition negative_cache_contains :: "('s, 'm) ChainKvStore \<Rightarrow> key \<Rightarrow> bool" where
  "negative_cache_contains s k =
     fst (fst (mcContains (fst (missingCache s)) k (snd (missingCache s))))"

subsection \<open>What the missing cache owes the engine\<close>


text \<open>
  \<open>is_tier_GetBatch c\<close> says that the call \<open>c\<close> is a \<^verbatim>\<open>GetBatch\<close> on a store of the
  chain, \<open>is_read c\<close> that it is a read of a store or of the missing cache, and
  \<open>on_tier c\<close> that it is a call on a store of the chain.
\<close>

fun is_tier_GetBatch :: "call \<Rightarrow> bool" where
  "is_tier_GetBatch (GetBatchCall (Tier i) todo values missing err) = True"
| "is_tier_GetBatch _ = False"

fun is_read :: "call \<Rightarrow> bool" where
  "is_read (ContainsCall t k) = True"
| "is_read (GetCall t k) = True"
| "is_read (GetBatchCall t todo values missing err) = True"
| "is_read _ = False"

fun on_tier :: "call \<Rightarrow> bool" where
  "on_tier (ContainsCall t k) = (t \<noteq> MissingCache)"
| "on_tier (GetCall t k) = (t \<noteq> MissingCache)"
| "on_tier (GetBatchCall t todo values missing err) = (t \<noteq> MissingCache)"
| "on_tier (PutCall t k v) = (t \<noteq> MissingCache)"
| "on_tier (PutBatchCall t values) = (t \<noteq> MissingCache)"
| "on_tier (DeleteCall t k) = (t \<noteq> MissingCache)"

section \<open>Properties\<close>

subsection \<open>What a single call changes\<close>

declare Contains_walk.simps [simp del] Get_walk.simps [simp del] Get_propagate.simps [simp del]
  GetBatch_walk.simps [simp del] GetBatch_propagate.simps [simp del] Put_loop.simps [simp del]
  PutBatch_loop.simps [simp del] decimal.simps [simp del]

lemma map_fst_update_same:
  "map fst (xs[n := (fst (xs ! n), y)]) = map fst xs"
  by (cases "n < length xs") (simp_all add: map_update list_update_same_conv list_update_beyond)

lemma Warnf_simps [simp]:
  "calls (Warnf w s) = calls s"
  "chain (Warnf w s) = chain s"
  "missingCache (Warnf w s) = missingCache s"
  "missingCacheEnabled (Warnf w s) = missingCacheEnabled s"
  "logger (Warnf w s) = logger s @ [w]"
  by (simp_all add: Warnf_def)

lemma element_type_Warnf [simp]: "element_type i (Warnf w s) = element_type i s"
  by (simp add: element_type_def)

lemma element_Contains_frame:
  assumes "element_Contains i k s = (r, s1)"
  shows "map fst (chain s1) = map fst (chain s)"
    and "calls s1 = calls s @ [ContainsCall (Tier i) k]"
    and "logger s1 = logger s"
    and "missingCache s1 = missingCache s"
    and "missingCacheEnabled s1 = missingCacheEnabled s"
  using assms map_fst_update_same [of "chain s" "nat i"]
  by (auto simp: element_Contains_def split: prod.splits)

lemma element_Get_frame:
  assumes "element_Get i k v s = (r, s1)"
  shows "map fst (chain s1) = map fst (chain s)"
    and "calls s1 = calls s @ [GetCall (Tier i) k]"
    and "logger s1 = logger s"
    and "missingCache s1 = missingCache s"
    and "missingCacheEnabled s1 = missingCacheEnabled s"
  using assms map_fst_update_same [of "chain s" "nat i"]
  by (auto simp: element_Get_def split: prod.splits)

lemma element_GetBatch_frame:
  assumes "element_GetBatch i todo values s = (((missing, err), values1), s1)"
  shows "map fst (chain s1) = map fst (chain s)"
    and "calls s1 = calls s @ [GetBatchCall (Tier i) todo values1 missing err]"
    and "logger s1 = logger s"
    and "missingCache s1 = missingCache s"
    and "missingCacheEnabled s1 = missingCacheEnabled s"
  using assms map_fst_update_same [of "chain s" "nat i"]
  by (auto simp: element_GetBatch_def split: prod.splits)


lemma element_PutBatch_frame:
  assumes "element_PutBatch i values s = (err, s1)"
  shows "map fst (chain s1) = map fst (chain s)"
    and "calls s1 = calls s @ [PutBatchCall (Tier i) values]"
    and "logger s1 = logger s"
    and "missingCache s1 = missingCache s"
    and "missingCacheEnabled s1 = missingCacheEnabled s"
  using assms map_fst_update_same [of "chain s" "nat i"]
  by (auto simp: element_PutBatch_def split: prod.splits)

lemma missingCache_Contains_frame:
  assumes "missingCache_Contains k s = (r, s1)"
  shows "chain s1 = chain s"
    and "calls s1 = calls s @ [ContainsCall MissingCache k]"
    and "logger s1 = logger s"
    and "fst (missingCache s1) = fst (missingCache s)"
    and "missingCacheEnabled s1 = missingCacheEnabled s"
    and "r = fst (mcContains (fst (missingCache s)) k (snd (missingCache s)))"
    and "snd (missingCache s1) = snd (mcContains (fst (missingCache s)) k (snd (missingCache s)))"
  using assms by (auto simp: missingCache_Contains_def split: prod.splits)

lemma missingCache_Put_frame:
  assumes "missingCache_Put k v s = (err, s1)"
  shows "chain s1 = chain s"
    and "calls s1 = calls s @ [PutCall MissingCache k v]"
    and "logger s1 = logger s"
    and "fst (missingCache s1) = fst (missingCache s)"
    and "missingCacheEnabled s1 = missingCacheEnabled s"
    and "err = fst (mcPut (fst (missingCache s)) k v (snd (missingCache s)))"
    and "snd (missingCache s1) = snd (mcPut (fst (missingCache s)) k v (snd (missingCache s)))"
  using assms by (auto simp: missingCache_Put_def split: prod.splits)

lemma missingCache_GetBatch_frame:
  assumes "missingCache_GetBatch todo values s = (((missing, err), values1), s1)"
  shows "chain s1 = chain s"
    and "calls s1 = calls s @ [GetBatchCall MissingCache todo
            (PMap (map (\<lambda>(k, v). (KString k, v)) values1)) missing err]"
    and "logger s1 = logger s"
    and "fst (missingCache s1) = fst (missingCache s)"
    and "missingCacheEnabled s1 = missingCacheEnabled s"
    and "((missing, err), values1) = fst (mcGetBatch (fst (missingCache s)) todo values (snd (missingCache s)))"
    and "snd (missingCache s1) = snd (mcGetBatch (fst (missingCache s)) todo values (snd (missingCache s)))"
  using assms by (auto simp: missingCache_GetBatch_def split: prod.splits)

lemma missingCache_PutBatch_frame:
  assumes "missingCache_PutBatch values s = (err, s1)"
  shows "chain s1 = chain s"
    and "calls s1 = calls s @ [PutBatchCall MissingCache (PMap values)]"
    and "logger s1 = logger s"
    and "fst (missingCache s1) = fst (missingCache s)"
    and "missingCacheEnabled s1 = missingCacheEnabled s"
    and "err = fst (mcPutBatch (fst (missingCache s)) values (snd (missingCache s)))"
    and "snd (missingCache s1) = snd (mcPutBatch (fst (missingCache s)) values (snd (missingCache s)))"
  using assms by (auto simp: missingCache_PutBatch_def split: prod.splits)





lemmas engine_simps = engine_def AddStore_def NewChainKvStoreWithInterfaces_def
  map_store_def broken_store_def blackhole_store_def string_cache_def
  broken_cache_def KeyToString_def decimal.simps digit_char_def

lemmas call_simps = element_Contains_def element_Get_def element_GetBatch_def element_Put_def
  element_PutBatch_def missingCache_Contains_def missingCache_Put_def missingCache_GetBatch_def
  missingCache_PutBatch_def missingCache_Delete_def element_type_def Warnf_def
  missingCache_lookup_def missingCache_record_def missingCache_erase_def

lemmas op_simps = Contains_def Contains_walk.simps Get_def Get_walk.simps Get_propagate.simps
  GetBatch_def GetBatch_cached_def GetBatch_walk.simps GetBatch_propagate.simps
  GetBatch_store_missing_def missingInElement_def missingValues_def range_keys_def
  Put_def Put_loop.simps PutBatch_def PutBatch_loop.simps
  InterfaceToInterfaceSlice_def InterfaceToMapInterfaceInterface_def


subsection \<open>Put\<close>

lemma Put_loop_done: "\<not> i \<le> lastElementIndex \<Longrightarrow> Put_loop k v lastElementIndex i s = (None, s)"
  by (subst Put_loop.simps) simp





subsection \<open>The walk of GetBatch\<close>

lemma GetBatch_walk_done:
  "\<not> i \<le> lastElementIndex \<Longrightarrow>
   GetBatch_walk lastElementIndex i todo vals refill s =
     ((Inr (todo, refill, lastElementIndex + 1), vals), s)"
  by (subst GetBatch_walk.simps) simp

lemma GetBatch_walk_fail:
  "element_GetBatch i todo vals s = (((missing, Some e), vals1), s1) \<Longrightarrow>
   GetBatch_walk i i todo vals refill s =
     ((Inl (CouldNotGetBatch (element_type i s) e), vals1), s1)"
  by (subst GetBatch_walk.simps) simp

lemma GetBatch_walk_stop:
  assumes "i \<le> lastElementIndex"
    and "element_GetBatch i todo vals s = (((missing, err), vals1), s1)"
    and "err = None \<or> i \<noteq> lastElementIndex"
    and "t = (case err of None \<Rightarrow> missing | Some e \<Rightarrow> todo)"
    and "s2 = (case err of None \<Rightarrow> s1
               | Some e \<Rightarrow> Warnf (CouldNotGetBatchWarning (element_type i s) e) s1)"
    and "t = []"
  shows "GetBatch_walk lastElementIndex i todo vals refill s =
           ((Inr (t, refill(i := t), i), vals1), s2)"
  using assms by (subst GetBatch_walk.simps) (auto split: option.splits)

lemma GetBatch_walk_next:
  assumes "i \<le> lastElementIndex"
    and "element_GetBatch i todo vals s = (((missing, err), vals1), s1)"
    and "err = None \<or> i \<noteq> lastElementIndex"
    and "t = (case err of None \<Rightarrow> missing | Some e \<Rightarrow> todo)"
    and "s2 = (case err of None \<Rightarrow> s1
               | Some e \<Rightarrow> Warnf (CouldNotGetBatchWarning (element_type i s) e) s1)"
    and "t \<noteq> []"
  shows "GetBatch_walk lastElementIndex i todo vals refill s =
           GetBatch_walk lastElementIndex (i + 1) t vals1 (refill(i := t)) s2"
  using assms by (subst GetBatch_walk.simps) (auto split: option.splits)

lemma GetBatch_walk_induct [case_names finished failed stopped continued]:
  assumes "\<And>i todo vals refill s. \<not> i \<le> lastElementIndex \<Longrightarrow>
             P i todo vals refill s ((Inr (todo, refill, lastElementIndex + 1), vals), s)"
    and "\<And>i todo vals refill s missing e vals1 s1.
           i = lastElementIndex \<Longrightarrow>
           element_GetBatch i todo vals s = (((missing, Some e), vals1), s1) \<Longrightarrow>
           P i todo vals refill s ((Inl (CouldNotGetBatch (element_type i s) e), vals1), s1)"
    and "\<And>i todo vals refill s missing err vals1 s1 t s2.
           i \<le> lastElementIndex \<Longrightarrow>
           element_GetBatch i todo vals s = (((missing, err), vals1), s1) \<Longrightarrow>
           err = None \<or> i \<noteq> lastElementIndex \<Longrightarrow>
           t = (case err of None \<Rightarrow> missing | Some e \<Rightarrow> todo) \<Longrightarrow>
           s2 = (case err of None \<Rightarrow> s1
                 | Some e \<Rightarrow> Warnf (CouldNotGetBatchWarning (element_type i s) e) s1) \<Longrightarrow>
           t = [] \<Longrightarrow>
           P i todo vals refill s ((Inr (t, refill(i := t), i), vals1), s2)"
    and "\<And>i todo vals refill s missing err vals1 s1 t s2 R.
           i \<le> lastElementIndex \<Longrightarrow>
           element_GetBatch i todo vals s = (((missing, err), vals1), s1) \<Longrightarrow>
           err = None \<or> i \<noteq> lastElementIndex \<Longrightarrow>
           t = (case err of None \<Rightarrow> missing | Some e \<Rightarrow> todo) \<Longrightarrow>
           s2 = (case err of None \<Rightarrow> s1
                 | Some e \<Rightarrow> Warnf (CouldNotGetBatchWarning (element_type i s) e) s1) \<Longrightarrow>
           t \<noteq> [] \<Longrightarrow>
           P (i + 1) t vals1 (refill(i := t)) s2 R \<Longrightarrow>
           P i todo vals refill s R"
  shows "P i todo vals refill s (GetBatch_walk lastElementIndex i todo vals refill s)"
  using assms
proof (induction lastElementIndex i todo vals refill s rule: GetBatch_walk.induct)
  case (1 lastElementIndex i todo vals refill s)
  show ?case
  proof (cases "i \<le> lastElementIndex")
    case False
    then show ?thesis using "1.prems"(1) by (simp add: GetBatch_walk_done)
  next
    case le: True
    obtain missing err vals1 s1
      where e: "element_GetBatch i todo vals s = (((missing, err), vals1), s1)"
      by (cases "element_GetBatch i todo vals s") auto
    show ?thesis
    proof (cases "err \<noteq> None \<and> i = lastElementIndex")
      case True
      then obtain x where "err = Some x" by auto
      with True e "1.prems"(2) [of i todo vals s missing x vals1 s1 refill]
      show ?thesis by (simp add: GetBatch_walk_fail)
    next
      case False
      then have ok: "err = None \<or> i \<noteq> lastElementIndex" by auto
      define t where "t = (case err of None \<Rightarrow> missing | Some e \<Rightarrow> todo)"
      define s2 where "s2 = (case err of None \<Rightarrow> s1
                 | Some e \<Rightarrow> Warnf (CouldNotGetBatchWarning (element_type i s) e) s1)"
      show ?thesis
      proof (cases "t = []")
        case True
        show ?thesis
          by (subst GetBatch_walk_stop [OF le e ok t_def s2_def True])
             (rule "1.prems"(3) [OF le e ok t_def s2_def True])
      next
        case ne: False
        have ih: "P (i + 1) t vals1 (refill(i := t)) s2
                    (GetBatch_walk lastElementIndex (i + 1) t vals1 (refill(i := t)) s2)"
        proof (cases err)
          case None
          with ne have m: "length missing \<noteq> 0" by (simp add: t_def)
          from None have ts: "t = missing" "s2 = s1" by (simp_all add: t_def s2_def)
          show ?thesis unfolding ts
            by (rule "1.IH"(1) [OF le e [symmetric] refl refl None m "1.prems"])
        next
          case (Some x)
          with ok have nl: "i \<noteq> lastElementIndex" by simp
          from Some ne have m: "length todo \<noteq> 0" by (simp add: t_def)
          from Some have ts: "t = todo" "s2 = Warnf (CouldNotGetBatchWarning (element_type i s) x) s1"
            by (simp_all add: t_def s2_def)
          show ?thesis unfolding ts
            by (rule "1.IH"(2) [OF le e [symmetric] refl refl Some nl m "1.prems"])
        qed
        show ?thesis
          by (subst GetBatch_walk_next [OF le e ok t_def s2_def ne])
             (rule "1.prems"(4) [OF le e ok t_def s2_def ne ih])
      qed
    qed
  qed
qed

text \<open>
  C5. A \<open>GetBatch\<close> has coerced its keys to \<open>ks\<close>, the missing cache has left it
  \<open>todo0\<close>, and its walk over the chain has reached store \<open>i\<close> with the work list
  \<open>todo\<close> (the walk from store 0 is the walk from \<open>i\<close> in the state reached). If
  the call on store \<open>i\<close> returns an error then, when \<open>i\<close> is the last index, the
  whole \<open>GetBatch\<close> returns that error wrapped with the store's type; otherwise the
  walk goes on at store \<open>i + 1\<close> with the same \<open>todo\<close>, with \<open>refill i\<close> set to
  \<open>todo\<close> and with the warning logged.
\<close>

theorem GetBatch_walk_tier_error:
  assumes "InterfaceToInterfaceSlice keys = Inr ks"
    and "GetBatch_cached ks s0 = ((todo0, cachedMissing), s1)"
    and "todo0 \<noteq> []"
    and "lastElementIndex = int (length (chain s1)) - 1"
    and "GetBatch_walk lastElementIndex 0 todo0 values0 (\<lambda>i. []) s1 =
           GetBatch_walk lastElementIndex i todo values refill s"
    and "i \<le> lastElementIndex"
    and "todo \<noteq> []"
    and "element_GetBatch i todo values s = (((missing, Some e), values1), s')"
  shows "(i = lastElementIndex \<longrightarrow>
            GetBatch keys values0 s0 =
              ((Inl (CouldNotGetBatch (element_type i s) e), values1), s'))
         \<and> (i \<noteq> lastElementIndex \<longrightarrow>
            GetBatch_walk lastElementIndex i todo values refill s =
              GetBatch_walk lastElementIndex (i + 1) todo values1 (refill(i := todo))
                (Warnf (CouldNotGetBatchWarning (element_type i s) e) s'))"
proof (intro conjI impI)
  assume t: "i = lastElementIndex"
  have "GetBatch_walk lastElementIndex i todo values refill s =
          ((Inl (CouldNotGetBatch (element_type i s) e), values1), s')"
    unfolding t [symmetric] by (rule GetBatch_walk_fail [OF assms(8)])
  with assms(5) have "GetBatch_walk (int (length (chain s1)) - 1) 0 todo0 values0 (\<lambda>i. []) s1 =
          ((Inl (CouldNotGetBatch (element_type i s) e), values1), s')"
    by (simp add: assms(4))
  with assms(1,2,3) show "GetBatch keys values0 s0 =
              ((Inl (CouldNotGetBatch (element_type i s) e), values1), s')"
    by (simp add: GetBatch_def Let_def)
next
  assume "i \<noteq> lastElementIndex"
  then have ok: "Some e = None \<or> i \<noteq> lastElementIndex" by simp
  show "GetBatch_walk lastElementIndex i todo values refill s =
              GetBatch_walk lastElementIndex (i + 1) todo values1 (refill(i := todo))
                (Warnf (CouldNotGetBatchWarning (element_type i s) e) s')"
    by (rule GetBatch_walk_next [OF assms(6,8) ok _ _ assms(7)]) simp_all
qed

theorem GetBatch_walk_tier_error_witness:
  "fst (GetBatch (PSlice [KString ''a'']) (PMap [])
          (engine False (string_cache, []) [(broken_store ''R'', []), (broken_store ''D'', [])])) =
     (Inl (CouldNotGetBatch ''D'' (Err ''unavailable'')), PMap [])
   \<and> logger (snd (GetBatch (PSlice [KString ''a'']) (PMap [])
          (engine False (string_cache, []) [(broken_store ''R'', []), (broken_store ''D'', [])]))) =
     [CouldNotGetBatchWarning ''R'' (Err ''unavailable'')]"
proof -
  let ?s = "engine False (string_cache, []) [(broken_store ''R'', []), (broken_store ''D'', [])]"
  let ?a = "[KString ''a'']"
  let ?s1 = "snd (element_GetBatch 0 ?a (PMap []) ?s)"
  let ?w = "Warnf (CouldNotGetBatchWarning (element_type 0 ?s) (Err ''unavailable'')) ?s1"
  let ?s2 = "snd (element_GetBatch 1 ?a (PMap []) ?w)"
  have k: "InterfaceToInterfaceSlice (PSlice ?a) = Inr ?a"
    by (simp add: InterfaceToInterfaceSlice_def)
  have c: "GetBatch_cached ?a ?s = ((?a, []), ?s)"
    by (simp add: GetBatch_cached_def engine_simps)
  have n: "?a \<noteq> []" by simp
  have l: "(1::int) = int (length (chain ?s)) - 1" by (simp add: engine_simps)
  have e0: "element_GetBatch 0 ?a (PMap []) ?s = ((([], Some (Err ''unavailable'')), PMap []), ?s1)"
    by (simp add: engine_simps call_simps)
  have e1: "element_GetBatch 1 ?a (PMap []) ?w = ((([], Some (Err ''unavailable'')), PMap []), ?s2)"
    by (simp add: engine_simps call_simps)
  have t0: "element_type 0 ?s = ''R''" by (simp add: engine_simps call_simps)
  have t1: "element_type 1 ?s1 = ''D''" by (simp add: engine_simps call_simps)
  have lg: "logger ?s2 = [CouldNotGetBatchWarning ''R'' (Err ''unavailable'')]"
    by (simp add: engine_simps call_simps)
  from GetBatch_walk_tier_error [OF k c n l refl _ n e0]
  have r: "GetBatch_walk 1 0 ?a (PMap []) (\<lambda>i. []) ?s =
             GetBatch_walk 1 1 ?a (PMap []) ((\<lambda>i. [])(0 := ?a)) ?w"
    by simp
  from GetBatch_walk_tier_error [OF k c n l r _ n e1]
  have "GetBatch (PSlice ?a) (PMap []) ?s = ((Inl (CouldNotGetBatch ''D'' (Err ''unavailable'')), PMap []), ?s2)"
    by (simp add: t1)
  with lg show ?thesis by simp
qed

subsection \<open>What GetBatch returns as missing\<close>






text \<open>
  C8. With the missing cache enabled, the keys that \<open>GetBatch\<close> reports missing because
  the missing cache holds them are the keys of the \<^verbatim>\<open>map[string]interface{}\<close> that the
  missing cache filled: they close the returned collection, each of them is a string, and
  none of them is one of the caller's keys when the caller passed no string key.
\<close>

theorem GetBatch_cached_missing_are_strings:
  assumes "missingCacheEnabled s"
    and "InterfaceToInterfaceSlice keys = Inr ks"
    and "missingCache_GetBatch ks [] s = (((todo1, err), cachedMissingMap), s1)"
    and "GetBatch keys values s = ((Inr M, values'), s')"
  shows "(\<exists>todo. M = todo @ map KString (range_keys cachedMissingMap))
         \<and> ((\<forall>k \<in> set ks. \<forall>str. k \<noteq> KString str) \<longrightarrow>
              set (map KString (range_keys cachedMissingMap)) \<inter> set ks = {})"
proof
  from assms(1,3) obtain s2 where
    c: "GetBatch_cached ks s = ((todo1, map KString (range_keys cachedMissingMap)), s2)"
    by (simp add: GetBatch_cached_def)
  show "\<exists>todo. M = todo @ map KString (range_keys cachedMissingMap)"
  proof (cases "todo1 = []")
    case True
    with assms(2,4) c have "M = [] @ map KString (range_keys cachedMissingMap)"
      by (simp add: GetBatch_def)
    then show ?thesis by blast
  next
    case False
    with assms(2,4) c show ?thesis
      by (auto simp: GetBatch_def Let_def split: sum.splits prod.splits)
  qed
next
  show "(\<forall>k \<in> set ks. \<forall>str. k \<noteq> KString str) \<longrightarrow>
          set (map KString (range_keys cachedMissingMap)) \<inter> set ks = {}"
    by auto
qed

theorem GetBatch_cached_missing_are_strings_witness:
  "fst (GetBatch (PSlice [KInt 1, KInt 2]) (PMap [])
          (engine True (string_cache, [(''1'', noValue)]) [(map_store ''D'', [])])) =
     (Inr [KInt 2, KString ''1''], PMap [])
   \<and> (\<exists>todo. [KInt 2, KString ''1''] = todo @ [KString ''1''])
   \<and> set [KString ''1''] \<inter> set [KInt 1, KInt 2] = {}"
proof -
  let ?s = "engine True (string_cache, [(''1'', noValue)]) [(map_store ''D'', [])]"
  let ?ks = "[KInt 1, KInt 2]"
  let ?r = "GetBatch (PSlice ?ks) (PMap []) ?s"
  have 1: "missingCacheEnabled ?s" by (simp add: engine_simps)
  have 2: "InterfaceToInterfaceSlice (PSlice ?ks) = Inr ?ks"
    by (simp add: InterfaceToInterfaceSlice_def)
  have 3: "missingCache_GetBatch ?ks [] ?s =
             ((([KInt 2], None), [(''1'', noValue)]), snd (missingCache_GetBatch ?ks [] ?s))"
    by (simp add: engine_simps call_simps prod_eq_iff)
  have f: "fst ?r = (Inr [KInt 2, KString ''1''], PMap [])"
    by (simp add: engine_simps call_simps op_simps)
  then have 4: "?r = ((Inr [KInt 2, KString ''1''], PMap []), snd ?r)"
    by (simp add: prod_eq_iff)
  have 5: "\<forall>k \<in> set ?ks. \<forall>str. k \<noteq> KString str" by simp
  have 6: "map KString (range_keys [(''1'', noValue)]) = [KString ''1'']"
    by (simp add: range_keys_def)
  from GetBatch_cached_missing_are_strings [OF 1 2 3 4] 5 f show ?thesis
    unfolding 6 by blast
qed

subsection \<open>The empty chain\<close>

lemma Contains_walk_done:
  "\<not> i \<le> lastElementIndex \<Longrightarrow> Contains_walk k lastElementIndex i s = (Inr False, s)"
  by (subst Contains_walk.simps) simp

lemma Get_walk_done:
  "\<not> i \<le> lastElementIndex \<Longrightarrow>
   Get_walk k lastElementIndex i v s = ((Inr (False, lastElementIndex + 1), v), s)"
  by (subst Get_walk.simps) simp

lemma PutBatch_loop_done:
  "\<not> i \<le> lastElementIndex \<Longrightarrow> PutBatch_loop vals lastElementIndex i s = (None, s)"
  by (subst PutBatch_loop.simps) simp

lemma GetBatch_propagate_done: "\<not> i \<ge> 0 \<Longrightarrow> GetBatch_propagate refill mii i s = s"
  by (subst GetBatch_propagate.simps) simp

lemma missingCache_lookup_enabled [simp]:
  "missingCacheEnabled (snd (missingCache_lookup k s)) = missingCacheEnabled s"
  by (simp add: missingCache_lookup_def missingCache_Contains_def split: prod.splits option.splits)

lemma missingCache_lookup_chain [simp]:
  "chain (snd (missingCache_lookup k s)) = chain s"
  by (simp add: missingCache_lookup_def missingCache_Contains_def split: prod.splits option.splits)

lemma GetBatch_cached_chain:
  "GetBatch_cached ks s = (r, s1) \<Longrightarrow> chain s1 = chain s"
  by (auto simp: GetBatch_cached_def missingCache_GetBatch_def split: if_splits prod.splits option.splits)

text \<open>
  C10. With an empty chain no operation fails for want of a store, and none calls a
  store. \<open>Contains\<close> and \<open>Get\<close> answer \<open>false\<close> without error and, with the missing
  cache enabled, record the key there unless the cache already reports it. \<open>Put\<close>
  returns no error and erases the key from the enabled missing cache. \<open>PutBatch\<close>
  returns no error with the missing cache disabled; with it enabled it coerces the values
  first and returns the coercion error, or erases every key of the map. \<open>GetBatch\<close>
  returns the coercion error of its keys, or the cached-missing keys when the missing
  cache left nothing to look up, or the coercion error of its values, or else every key
  the missing cache left followed by the cached-missing keys, which it also records in
  the enabled missing cache.
\<close>

theorem empty_chain_operations:
  assumes "chain s = []"
  shows "Contains k s =
           (Inr False,
            if missingCacheEnabled s
            then (case missingCache_lookup k s of
                    (cached, s1) \<Rightarrow> if cached then s1 else missingCache_record k s1)
            else s)
         \<and> Get k v s =
           ((Inr False, v),
            if missingCacheEnabled s
            then (case missingCache_lookup k s of
                    (cached, s1) \<Rightarrow> if cached then s1 else missingCache_record k s1)
            else s)
         \<and> Put k v s = (None, if missingCacheEnabled s then missingCache_erase k s else s)
         \<and> PutBatch vals s =
           (if missingCacheEnabled s
            then (case InterfaceToMapInterfaceInterface vals of
                    Inl err \<Rightarrow> (Some (CanNotCastValues err), s)
                  | Inr mii \<Rightarrow> (None, fold missingCache_erase (range_keys mii) s))
            else (None, s))
         \<and> GetBatch keys vals s =
           (case InterfaceToInterfaceSlice keys of
              Inl err \<Rightarrow> ((Inl (CanNotMorphKeys err), vals), s)
            | Inr ks \<Rightarrow>
                (case GetBatch_cached ks s of
                   ((todo, cachedMissing), s1) \<Rightarrow>
                     if todo = [] then ((Inr cachedMissing, vals), s1)
                     else (case InterfaceToMapInterfaceInterface vals of
                             Inl err \<Rightarrow> ((Inl (CanNotCastResultValues err), vals), s1)
                           | Inr mii \<Rightarrow>
                               ((Inr (todo @ cachedMissing), vals),
                                GetBatch_store_missing todo s1))))
         \<and> (\<not> missingCacheEnabled s \<longrightarrow> InterfaceToInterfaceSlice keys = Inr ks \<longrightarrow>
              (ks = [] \<or> (\<exists>mii. InterfaceToMapInterfaceInterface vals = Inr mii)) \<longrightarrow>
              GetBatch keys vals s = ((Inr ks, vals), s))"
proof (intro conjI)
  show "Contains k s =
           (Inr False,
            if missingCacheEnabled s
            then (case missingCache_lookup k s of
                    (cached, s1) \<Rightarrow> if cached then s1 else missingCache_record k s1)
            else s)"
  proof (cases "missingCacheEnabled s")
    case False
    with assms show ?thesis by (simp add: Contains_def Contains_walk_done)
  next
    case True
    obtain cached s1 where l: "missingCache_lookup k s = (cached, s1)"
      by (cases "missingCache_lookup k s")
    with missingCache_lookup_enabled [of k s] True have "missingCacheEnabled s1" by simp
    with assms True l show ?thesis by (simp add: Contains_def Contains_walk_done)
  qed
  show "Get k v s =
           ((Inr False, v),
            if missingCacheEnabled s
            then (case missingCache_lookup k s of
                    (cached, s1) \<Rightarrow> if cached then s1 else missingCache_record k s1)
            else s)"
  proof (cases "missingCacheEnabled s")
    case False
    with assms show ?thesis by (simp add: Get_def Get_walk_done)
  next
    case True
    obtain cached s1 where l: "missingCache_lookup k s = (cached, s1)"
      by (cases "missingCache_lookup k s")
    with missingCache_lookup_enabled [of k s] missingCache_lookup_chain [of k s] True assms
    have "missingCacheEnabled s1" "chain s1 = []" by simp_all
    with True l show ?thesis by (simp add: Get_def Get_walk_done)
  qed
  show "Put k v s = (None, if missingCacheEnabled s then missingCache_erase k s else s)"
    using assms by (simp add: Put_def Put_loop_done)
  show "PutBatch vals s =
           (if missingCacheEnabled s
            then (case InterfaceToMapInterfaceInterface vals of
                    Inl err \<Rightarrow> (Some (CanNotCastValues err), s)
                  | Inr mii \<Rightarrow> (None, fold missingCache_erase (range_keys mii) s))
            else (None, s))"
    using assms by (simp add: PutBatch_def PutBatch_loop_done)
  show "GetBatch keys vals s =
           (case InterfaceToInterfaceSlice keys of
              Inl err \<Rightarrow> ((Inl (CanNotMorphKeys err), vals), s)
            | Inr ks \<Rightarrow>
                (case GetBatch_cached ks s of
                   ((todo, cachedMissing), s1) \<Rightarrow>
                     if todo = [] then ((Inr cachedMissing, vals), s1)
                     else (case InterfaceToMapInterfaceInterface vals of
                             Inl err \<Rightarrow> ((Inl (CanNotCastResultValues err), vals), s1)
                           | Inr mii \<Rightarrow>
                               ((Inr (todo @ cachedMissing), vals),
                                GetBatch_store_missing todo s1))))"
  proof (cases "InterfaceToInterfaceSlice keys")
    case (Inl err)
    then show ?thesis by (simp add: GetBatch_def)
  next
    case (Inr ks)
    obtain todo cm s1 where c: "GetBatch_cached ks s = ((todo, cm), s1)"
      by (cases "GetBatch_cached ks s") auto
    from GetBatch_cached_chain [OF c] assms have e: "chain s1 = []" by simp
    from Inr c e show ?thesis
      by (simp add: GetBatch_def GetBatch_walk_done GetBatch_propagate_done split: sum.splits)
  qed
  show "\<not> missingCacheEnabled s \<longrightarrow> InterfaceToInterfaceSlice keys = Inr ks \<longrightarrow>
              (ks = [] \<or> (\<exists>mii. InterfaceToMapInterfaceInterface vals = Inr mii)) \<longrightarrow>
              GetBatch keys vals s = ((Inr ks, vals), s)"
    using assms
    by (auto simp: GetBatch_def GetBatch_cached_def GetBatch_walk_done GetBatch_propagate_done
                   GetBatch_store_missing_def)
qed

theorem empty_chain_operations_witness:
  "chain (engine True (string_cache, []) []) = []
   \<and> fst (Contains (KString ''a'') (engine True (string_cache, []) [])) = Inr False
   \<and> negative_cache_contains
         (snd (Contains (KString ''a'') (engine True (string_cache, []) []))) (KString ''a'')
   \<and> fst (Get (KString ''a'') (VInt 0) (engine True (string_cache, []) [])) = (Inr False, VInt 0)
   \<and> Put (KString ''a'') (VInt 1) (engine True (string_cache, [(''a'', noValue)]) []) =
       (None, missingCache_erase (KString ''a'') (engine True (string_cache, [(''a'', noValue)]) []))
   \<and> fst (PutBatch (PMap [(KString ''a'', VInt 1)]) (engine True (string_cache, []) [])) = None
   \<and> fst (GetBatch (PSlice [KString ''a'', KString ''b'']) (PMap [])
           (engine True (string_cache, [(''b'', noValue)]) [])) =
       (Inr [KString ''a'', KString ''b''], PMap [])
   \<and> GetBatch (PSlice [KString ''a'', KString ''b'']) (PMap []) (engine False (string_cache, []) []) =
       ((Inr [KString ''a'', KString ''b''], PMap []), engine False (string_cache, []) [])"
proof -
  have c: "chain (engine b (string_cache, m) []) = []" for b m
    by (simp add: engine_simps)
  have d: "\<not> missingCacheEnabled (engine False (string_cache, []) [])"
    by (simp add: engine_simps)
  have k: "InterfaceToInterfaceSlice (PSlice [KString ''a'', KString ''b'']) =
             Inr [KString ''a'', KString ''b'']"
    by (simp add: InterfaceToInterfaceSlice_def)
  have m: "InterfaceToMapInterfaceInterface (PMap []) = Inr []"
    by (simp add: InterfaceToMapInterfaceInterface_def)
  have 1: "fst (Contains (KString ''a'') (engine True (string_cache, []) [])) = Inr False"
    using empty_chain_operations [OF c [of True "[]"], where k = "KString ''a''"] by simp
  have 2: "negative_cache_contains
         (snd (Contains (KString ''a'') (engine True (string_cache, []) []))) (KString ''a'')"
    using empty_chain_operations [OF c [of True "[]"], where k = "KString ''a''"]
    by (simp add: engine_simps call_simps negative_cache_contains_def)
  have 3: "fst (Get (KString ''a'') (VInt 0) (engine True (string_cache, []) [])) = (Inr False, VInt 0)"
    using empty_chain_operations [OF c [of True "[]"], where k = "KString ''a''" and v = "VInt 0"] by simp
  have 4: "Put (KString ''a'') (VInt 1) (engine True (string_cache, [(''a'', noValue)]) []) =
       (None, missingCache_erase (KString ''a'') (engine True (string_cache, [(''a'', noValue)]) []))"
    using empty_chain_operations [OF c [of True "[(''a'', noValue)]"], where k = "KString ''a''" and v = "VInt 1"]
    by (simp add: engine_simps)
  have 5: "fst (PutBatch (PMap [(KString ''a'', VInt 1)]) (engine True (string_cache, []) [])) = None"
    using empty_chain_operations [OF c [of True "[]"], where vals = "PMap [(KString ''a'', VInt 1)]"]
    by (simp add: engine_simps InterfaceToMapInterfaceInterface_def)
  have 6: "fst (GetBatch (PSlice [KString ''a'', KString ''b'']) (PMap [])
           (engine True (string_cache, [(''b'', noValue)]) [])) =
       (Inr [KString ''a'', KString ''b''], PMap [])"
    using empty_chain_operations [OF c [of True "[(''b'', noValue)]"], where vals = "PMap []" and keys = "PSlice [KString ''a'', KString ''b'']"]
    by (simp add: engine_simps call_simps GetBatch_cached_def range_keys_def
                  InterfaceToInterfaceSlice_def InterfaceToMapInterfaceInterface_def)
  have 7: "GetBatch (PSlice [KString ''a'', KString ''b'']) (PMap []) (engine False (string_cache, []) []) =
       ((Inr [KString ''a'', KString ''b''], PMap []), engine False (string_cache, []) [])"
    using empty_chain_operations [OF c [of False "[]"], where vals = "PMap []"
               and keys = "PSlice [KString ''a'', KString ''b'']" and ks = "[KString ''a'', KString ''b'']"] d k m
    by blast
  from c [of True "[]"] 1 2 3 4 5 6 7 show ?thesis by blast
qed

text \<open>
  On the empty chain \<open>GetBatch\<close> still fails when the values cannot be coerced to a
  map, and so does \<open>PutBatch\<close> with the missing cache enabled.
\<close>

theorem empty_chain_coercion_fails:
  "chain (engine False (string_cache, []) []) = []
   \<and> fst (GetBatch (PSlice [KString ''a'']) (PScalar (VInt 0)) (engine False (string_cache, []) [])) =
       (Inl (CanNotCastResultValues (Err ''input is not a map'')), PScalar (VInt 0))
   \<and> chain (engine True (string_cache, []) []) = []
   \<and> fst (PutBatch (PScalar (VInt 0)) (engine True (string_cache, []) [])) =
       Some (CanNotCastValues (Err ''input is not a map''))"
  by (simp add: engine_simps call_simps op_simps)

subsection \<open>The calls of the walk of GetBatch and of the loop of PutBatch\<close>

lemma is_tier_GetBatch_read: "is_tier_GetBatch c \<Longrightarrow> is_read c \<and> on_tier c"
  by (cases c rule: is_tier_GetBatch.cases) simp_all

lemma GetBatch_walk_frame:
  "map fst (chain (snd (GetBatch_walk lastElementIndex i todo vals refill s))) = map fst (chain s)
   \<and> missingCache (snd (GetBatch_walk lastElementIndex i todo vals refill s)) = missingCache s
   \<and> missingCacheEnabled (snd (GetBatch_walk lastElementIndex i todo vals refill s)) =
       missingCacheEnabled s
   \<and> (\<exists>cs. calls (snd (GetBatch_walk lastElementIndex i todo vals refill s)) = calls s @ cs
           \<and> (\<forall>c \<in> set cs. is_tier_GetBatch c))"
proof (rule GetBatch_walk_induct [where P = "\<lambda>i todo vals refill s R.
     map fst (chain (snd R)) = map fst (chain s)
   \<and> missingCache (snd R) = missingCache s
   \<and> missingCacheEnabled (snd R) = missingCacheEnabled s
   \<and> (\<exists>cs. calls (snd R) = calls s @ cs \<and> (\<forall>c \<in> set cs. is_tier_GetBatch c))"],
   goal_cases)
  case (1 i todo vals refill s)
  then show ?case by simp
next
  case (2 i todo vals refill s missing e vals1 s1)
  from element_GetBatch_frame [OF 2(2)] show ?case by simp
next
  case (3 i todo vals refill s missing err vals1 s1 t s2)
  from element_GetBatch_frame [OF 3(2)] 3(5) show ?case by (simp split: option.splits)
next
  case (4 i todo vals refill s missing err vals1 s1 t s2 R)
  note fr = element_GetBatch_frame [OF 4(2)]
  from fr 4(5) have s2: "map fst (chain s2) = map fst (chain s)" "missingCache s2 = missingCache s"
    "missingCacheEnabled s2 = missingCacheEnabled s"
    "calls s2 = calls s @ [GetBatchCall (Tier i) todo vals1 missing err]"
    by (simp_all split: option.splits)
  from 4(7) obtain cs where cs: "calls (snd R) = calls s2 @ cs" "\<forall>c \<in> set cs. is_tier_GetBatch c"
    by blast
  from cs s2 have "calls (snd R) = calls s @ (GetBatchCall (Tier i) todo vals1 missing err # cs)
      \<and> (\<forall>c \<in> set (GetBatchCall (Tier i) todo vals1 missing err # cs). is_tier_GetBatch c)"
    by simp
  then have "\<exists>cs. calls (snd R) = calls s @ cs \<and> (\<forall>c \<in> set cs. is_tier_GetBatch c)"
    by blast
  with 4(7) s2 show ?case by simp
qed

lemma GetBatch_walk_first_call:
  assumes "i \<le> lastElementIndex"
  shows "\<exists>vl ms er cs. calls (snd (GetBatch_walk lastElementIndex i todo vals refill s)) =
           calls s @ GetBatchCall (Tier i) todo vl ms er # cs"
proof -
  obtain missing err vals1 s1
    where e: "element_GetBatch i todo vals s = (((missing, err), vals1), s1)"
    by (cases "element_GetBatch i todo vals s") auto
  note fr = element_GetBatch_frame [OF e]
  define t where "t = (case err of None \<Rightarrow> missing | Some e \<Rightarrow> todo)"
  define s2 where "s2 = (case err of None \<Rightarrow> s1
                 | Some e \<Rightarrow> Warnf (CouldNotGetBatchWarning (element_type i s) e) s1)"
  have s2: "calls s2 = calls s @ [GetBatchCall (Tier i) todo vals1 missing err]"
    using fr by (simp add: s2_def split: option.splits)
  show ?thesis
  proof (cases "err \<noteq> None \<and> i = lastElementIndex")
    case True
    then obtain x where x: "err = Some x" by auto
    from True have "GetBatch_walk lastElementIndex i todo vals refill s =
        ((Inl (CouldNotGetBatch (element_type i s) x), vals1), s1)"
      using GetBatch_walk_fail [OF e [unfolded x]] by simp
    with fr show ?thesis by simp
  next
    case False
    then have ok: "err = None \<or> i \<noteq> lastElementIndex" by auto
    show ?thesis
    proof (cases "t = []")
      case True
      from GetBatch_walk_stop [OF assms e ok t_def s2_def True] s2 show ?thesis by simp
    next
      case ne: False
      from GetBatch_walk_frame [of lastElementIndex "i + 1" t vals1 "refill(i := t)" s2]
      obtain cs where "calls (snd (GetBatch_walk lastElementIndex (i + 1) t vals1 (refill(i := t)) s2)) =
          calls s2 @ cs" by blast
      with GetBatch_walk_next [OF assms e ok t_def s2_def ne, of refill] s2 show ?thesis by simp
    qed
  qed
qed

lemma PutBatch_loop_step:
  "i \<le> lastElementIndex \<Longrightarrow> element_PutBatch i vals s = (err, s1) \<Longrightarrow>
   PutBatch_loop vals lastElementIndex i s =
     (case err of
        Some e \<Rightarrow>
          if i = lastElementIndex then (Some (CouldNotPutBatch (element_type i s) e), s1)
          else PutBatch_loop vals lastElementIndex (i + 1)
                 (Warnf (CouldNotPutBatchWarning (element_type i s) e) s1)
      | None \<Rightarrow> PutBatch_loop vals lastElementIndex (i + 1) s1)"
  by (subst PutBatch_loop.simps) simp

lemma PutBatch_loop_frame:
  "PutBatch_loop vals lastElementIndex i s = (r, s') \<Longrightarrow>
     map fst (chain s') = map fst (chain s) \<and> missingCache s' = missingCache s \<and>
     missingCacheEnabled s' = missingCacheEnabled s \<and>
     calls s' = calls s @ map (\<lambda>j. PutBatchCall (Tier j) vals) [i..lastElementIndex]"
proof (induction vals lastElementIndex i s arbitrary: r s' rule: PutBatch_loop.induct)
  case (1 vals lastElementIndex i s)
  show ?case
  proof (cases "i \<le> lastElementIndex")
    case False
    with "1.prems" show ?thesis by (simp add: PutBatch_loop_done)
  next
    case le: True
    obtain err s1 where e: "element_PutBatch i vals s = (err, s1)"
      by (cases "element_PutBatch i vals s")
    note fr = element_PutBatch_frame [OF e]
    note st = PutBatch_loop_step [OF le e]
    have up: "[i..lastElementIndex] = i # [i + 1..lastElementIndex]"
      using le by (simp add: upto_rec1)
    show ?thesis
    proof (cases err)
      case None
      with "1.prems" st
      have "PutBatch_loop vals lastElementIndex (i + 1) s1 = (r, s')" by simp
      from "1.IH"(1) [OF le e [symmetric] None this] fr up show ?thesis by simp
    next
      case (Some x)
      show ?thesis
      proof (cases "i = lastElementIndex")
        case True
        with "1.prems" st Some fr show ?thesis by auto
      next
        case False
        with "1.prems" st Some
        have "PutBatch_loop vals lastElementIndex (i + 1)
                (Warnf (CouldNotPutBatchWarning (element_type i s) x) s1) = (r, s')"
          by simp
        from "1.IH"(2) [OF le e [symmetric] Some False this] fr up show ?thesis by simp
      qed
    qed
  qed
qed

subsection \<open>Coercion of the payloads\<close>

lemma GetBatch_walk_error:
  "fst (fst (GetBatch_walk lastElementIndex i todo vals refill s)) = Inl er \<longrightarrow>
     (\<exists>T e. er = CouldNotGetBatch T e)"
  by (rule GetBatch_walk_induct [where P = "\<lambda>i todo vals refill s R.
        fst (fst R) = Inl er \<longrightarrow> (\<exists>T e. er = CouldNotGetBatch T e)"]) auto

lemma GetBatch_cached_frame:
  assumes "GetBatch_cached ks s = (r, s1)"
  shows "chain s1 = chain s"
    and "missingCacheEnabled s1 = missingCacheEnabled s"
    and "fst (missingCache s1) = fst (missingCache s)"
    and "\<exists>cs. calls s1 = calls s @ cs \<and> (\<forall>c \<in> set cs. is_read c \<and> \<not> on_tier c)"
  using assms
  by (auto simp: GetBatch_cached_def missingCache_GetBatch_def
           split: if_splits prod.splits option.splits)

lemma PutBatch_loop_error:
  "PutBatch_loop vals lastElementIndex i s = (Some x, s') \<Longrightarrow> \<exists>T e. x = CouldNotPutBatch T e"
proof (induction vals lastElementIndex i s arbitrary: s' rule: PutBatch_loop.induct)
  case (1 vals lastElementIndex i s)
  show ?case
  proof (cases "i \<le> lastElementIndex")
    case False
    with "1.prems" show ?thesis by (simp add: PutBatch_loop_done)
  next
    case le: True
    obtain err s1 where e: "element_PutBatch i vals s = (err, s1)"
      by (cases "element_PutBatch i vals s")
    note st = PutBatch_loop_step [OF le e]
    show ?thesis
    proof (cases err)
      case None
      with "1.prems" st
      have "PutBatch_loop vals lastElementIndex (i + 1) s1 = (Some x, s')" by simp
      from "1.IH"(1) [OF le e [symmetric] None this] show ?thesis .
    next
      case (Some y)
      show ?thesis
      proof (cases "i = lastElementIndex")
        case True
        with "1.prems" st Some show ?thesis by auto
      next
        case False
        with "1.prems" st Some
        have "PutBatch_loop vals lastElementIndex (i + 1)
                (Warnf (CouldNotPutBatchWarning (element_type i s) y) s1) = (Some x, s')"
          by simp
        from "1.IH"(2) [OF le e [symmetric] Some False this] show ?thesis .
      qed
    qed
  qed
qed

text \<open>
  C1. The three coercions of a payload are surfaced as follows. When the keys of
  \<open>GetBatch\<close> cannot be coerced to a slice, \<open>GetBatch\<close> returns the coercion error at
  once and the engine is as it was: neither a store nor the missing cache has been called.
  When \<open>GetBatch\<close> returns the coercion error of its values, the walk over the chain has
  already been made and the engine is in the state the walk left: the calls made are reads
  only (no backfill and no write to the missing cache), and with a non-empty chain a store
  has been read. When \<open>PutBatch\<close> returns the coercion error of its values, the missing
  cache is enabled, every store of the chain has been written, in chain order, and the
  missing cache is untouched.
\<close>

theorem coercion_failure_surfaces:
  "(InterfaceToInterfaceSlice keys = Inl e \<longrightarrow>
      GetBatch keys vals s = ((Inl (CanNotMorphKeys e), vals), s))
   \<and> (GetBatch keys vals s = ((Inl (CanNotCastResultValues e), vals'), s') \<longrightarrow>
        (\<exists>ks todo0 cachedMissing s1 todo refill foundInIndex.
           InterfaceToInterfaceSlice keys = Inr ks
           \<and> GetBatch_cached ks s = ((todo0, cachedMissing), s1)
           \<and> todo0 \<noteq> []
           \<and> GetBatch_walk (int (length (chain s1)) - 1) 0 todo0 vals (\<lambda>i. []) s1 =
               ((Inr (todo, refill, foundInIndex), vals'), s')
           \<and> InterfaceToMapInterfaceInterface vals' = Inl e)
        \<and> (\<forall>c \<in> set (new_calls s s'). is_read c)
        \<and> (chain s \<noteq> [] \<longrightarrow> (\<exists>c \<in> set (new_calls s s'). is_tier_GetBatch c)))
   \<and> (PutBatch vals s = (Some (CanNotCastValues e), s'') \<longrightarrow>
        missingCacheEnabled s
        \<and> InterfaceToMapInterfaceInterface vals = Inl e
        \<and> new_calls s s'' = map (\<lambda>i. PutBatchCall (Tier i) vals) [0..int (length (chain s)) - 1]
        \<and> missingCache s'' = missingCache s)"
proof (intro conjI impI)
  assume "InterfaceToInterfaceSlice keys = Inl e"
  then show "GetBatch keys vals s = ((Inl (CanNotMorphKeys e), vals), s)"
    by (simp add: GetBatch_def)
next
  assume g: "GetBatch keys vals s = ((Inl (CanNotCastResultValues e), vals'), s')"
  then obtain ks where k: "InterfaceToInterfaceSlice keys = Inr ks"
    by (cases "InterfaceToInterfaceSlice keys") (auto simp: GetBatch_def)
  obtain todo0 cm s1 where c: "GetBatch_cached ks s = ((todo0, cm), s1)"
    by (cases "GetBatch_cached ks s") auto
  from g k c have n: "todo0 \<noteq> []" by (auto simp: GetBatch_def)
  let ?w = "GetBatch_walk (int (length (chain s1)) - 1) 0 todo0 vals (\<lambda>i. []) s1"
  obtain r v s2 where w: "?w = ((r, v), s2)" by (cases ?w) auto
  have "\<exists>todo refill fi. r = Inr (todo, refill, fi)"
  proof (cases r)
    case (Inl er)
    with g k c n w have "er = CanNotCastResultValues e" by (simp add: GetBatch_def Let_def)
    moreover from GetBatch_walk_error [of "int (length (chain s1)) - 1" 0 todo0 vals "\<lambda>i. []" s1 er]
      w Inl obtain T e' where "er = CouldNotGetBatch T e'" by auto
    ultimately show ?thesis by simp
  next
    case (Inr x)
    then show ?thesis by (cases x) auto
  qed
  then obtain todo refill fi where r: "r = Inr (todo, refill, fi)" by blast
  from g k c n w r have m: "InterfaceToMapInterfaceInterface v = Inl e" and v: "v = vals'"
    and s2: "s2 = s'"
    by (auto simp: GetBatch_def Let_def split: sum.splits)
  from k c n w r m v s2
  show "\<exists>ks todo0 cachedMissing s1 todo refill foundInIndex.
           InterfaceToInterfaceSlice keys = Inr ks
           \<and> GetBatch_cached ks s = ((todo0, cachedMissing), s1)
           \<and> todo0 \<noteq> []
           \<and> GetBatch_walk (int (length (chain s1)) - 1) 0 todo0 vals (\<lambda>i. []) s1 =
               ((Inr (todo, refill, foundInIndex), vals'), s')
           \<and> InterfaceToMapInterfaceInterface vals' = Inl e"
    by blast
  note cf = GetBatch_cached_frame [OF c]
  from cf(4) obtain cs0 where cs0: "calls s1 = calls s @ cs0" "\<forall>c \<in> set cs0. is_read c"
    by blast
  from GetBatch_walk_frame [of "int (length (chain s1)) - 1" 0 todo0 vals "\<lambda>i. []" s1] w s2
  obtain cs where cs: "calls s' = calls s1 @ cs" "\<forall>c \<in> set cs. is_tier_GetBatch c"
    by auto
  from cs0 cs have nc: "new_calls s s' = cs0 @ cs" by (simp add: new_calls_def)
  from cs0(2) cs(2) is_tier_GetBatch_read show "\<forall>c \<in> set (new_calls s s'). is_read c"
    unfolding nc by auto
  {
    assume "chain s \<noteq> []"
    with cf(1) have "0 \<le> int (length (chain s1)) - 1" by (cases "chain s") auto
    from GetBatch_walk_first_call [OF this, of todo0 vals "\<lambda>i. []" s1] w s2
    obtain vl ms er cs' where "calls s' = calls s1 @ GetBatchCall (Tier 0) todo0 vl ms er # cs'"
      by auto
    with cs0 have "new_calls s s' = cs0 @ GetBatchCall (Tier 0) todo0 vl ms er # cs'"
      by (simp add: new_calls_def)
    then have "GetBatchCall (Tier 0) todo0 vl ms er \<in> set (new_calls s s')" by simp
    then have "\<exists>c \<in> set (new_calls s s'). is_tier_GetBatch c"
      by (rule bexI [rotated]) simp
  }
  then show "chain s \<noteq> [] \<Longrightarrow> \<exists>c \<in> set (new_calls s s'). is_tier_GetBatch c" .
next
  assume p: "PutBatch vals s = (Some (CanNotCastValues e), s'')"
  obtain r s1 where l: "PutBatch_loop vals (int (length (chain s)) - 1) 0 s = (r, s1)"
    by (cases "PutBatch_loop vals (int (length (chain s)) - 1) 0 s")
  note fr = PutBatch_loop_frame [OF l]
  have r: "r = None"
  proof (cases r)
    case (Some x)
    with p l have "x = CanNotCastValues e" by (simp add: PutBatch_def)
    moreover from PutBatch_loop_error l Some have "\<exists>T e'. x = CouldNotPutBatch T e'" by blast
    ultimately show ?thesis by auto
  qed simp
  from p l r fr have en: "missingCacheEnabled s"
    by (auto simp: PutBatch_def split: if_splits)
  from p l r fr en have m: "InterfaceToMapInterfaceInterface vals = Inl e" and s1: "s1 = s''"
    by (auto simp: PutBatch_def split: sum.splits)
  from fr s1 have "new_calls s s'' = map (\<lambda>i. PutBatchCall (Tier i) vals) [0..int (length (chain s)) - 1]"
    by (simp add: new_calls_def)
  then show "new_calls s s'' = map (\<lambda>i. PutBatchCall (Tier i) vals) [0..int (length (chain s)) - 1]" .
  from en show "missingCacheEnabled s" .
  from m show "InterfaceToMapInterfaceInterface vals = Inl e" .
  from fr s1 show "missingCache s'' = missingCache s" by simp
qed

theorem coercion_failure_surfaces_witness:
  "GetBatch (PScalar (VInt 7)) (PMap [])
     (engine True (string_cache, []) [(broken_store ''R'', []), (blackhole_store ''D'', [])]) =
     ((Inl (CanNotMorphKeys (Err ''input is not a slice'')), PMap []),
      engine True (string_cache, []) [(broken_store ''R'', []), (blackhole_store ''D'', [])])
   \<and> fst (PutBatch (PScalar (VInt 1))
          (engine True (string_cache, []) [(broken_store ''R'', []), (blackhole_store ''D'', [])])) =
       Some (CanNotCastValues (Err ''input is not a map''))
   \<and> new_calls
         (engine True (string_cache, []) [(broken_store ''R'', []), (blackhole_store ''D'', [])])
         (snd (PutBatch (PScalar (VInt 1))
            (engine True (string_cache, []) [(broken_store ''R'', []), (blackhole_store ''D'', [])]))) =
       [PutBatchCall (Tier 0) (PScalar (VInt 1)), PutBatchCall (Tier 1) (PScalar (VInt 1))]"
proof -
  let ?s = "engine True (string_cache, []) [(broken_store ''R'', []), (blackhole_store ''D'', [])]"
  let ?p = "PutBatch (PScalar (VInt 1)) ?s"
  have k: "InterfaceToInterfaceSlice (PScalar (VInt 7)) = Inl (Err ''input is not a slice'')"
    by (simp add: InterfaceToInterfaceSlice_def)
  have f: "fst ?p = Some (CanNotCastValues (Err ''input is not a map''))"
    by (simp add: engine_simps call_simps op_simps)
  then have p: "?p = (Some (CanNotCastValues (Err ''input is not a map'')), snd ?p)"
    by (simp add: prod_eq_iff)
  have u: "[0..int (length (chain ?s)) - 1] = [0, 1]" by (simp add: engine_simps upto_rec1)
  note t = coercion_failure_surfaces [where keys = "PScalar (VInt 7)" and s = ?s
      and e = "Err ''input is not a slice''" and vals = "PMap []"]
  note t' = coercion_failure_surfaces [where s = ?s and vals = "PScalar (VInt 1)"
      and e = "Err ''input is not a map''" and s'' = "snd ?p"]
  from t k have 1: "GetBatch (PScalar (VInt 7)) (PMap []) ?s =
      ((Inl (CanNotMorphKeys (Err ''input is not a slice'')), PMap []), ?s)"
    by blast
  from t' p have "new_calls ?s (snd ?p) =
      map (\<lambda>i. PutBatchCall (Tier i) (PScalar (VInt 1))) [0..int (length (chain ?s)) - 1]"
    by blast
  then have 2: "new_calls ?s (snd ?p) =
      [PutBatchCall (Tier 0) (PScalar (VInt 1)), PutBatchCall (Tier 1) (PScalar (VInt 1))]"
    unfolding u by simp
  from 1 f 2 show ?thesis by blast
qed

text \<open>
  With a store that accepts what it is given, the coercion error of the values comes after
  the store has been read by \<open>GetBatch\<close>, and after it has been written by \<open>PutBatch\<close>.
\<close>

theorem coercion_failure_after_store_calls:
  "fst (GetBatch (PSlice [KString ''a'']) (PScalar (VInt 1))
          (engine False (string_cache, []) [(blackhole_store ''D'', [])])) =
     (Inl (CanNotCastResultValues (Err ''input is not a map'')), PScalar (VInt 1))
   \<and> new_calls (engine False (string_cache, []) [(blackhole_store ''D'', [])])
         (snd (GetBatch (PSlice [KString ''a'']) (PScalar (VInt 1))
            (engine False (string_cache, []) [(blackhole_store ''D'', [])]))) =
       [GetBatchCall (Tier 0) [KString ''a''] (PScalar (VInt 1)) [KString ''a''] None]
   \<and> fst (PutBatch (PScalar (VInt 1))
          (engine True (string_cache, []) [(blackhole_store ''D'', [])])) =
       Some (CanNotCastValues (Err ''input is not a map''))
   \<and> new_calls (engine True (string_cache, []) [(blackhole_store ''D'', [])])
         (snd (PutBatch (PScalar (VInt 1))
            (engine True (string_cache, []) [(blackhole_store ''D'', [])]))) =
       [PutBatchCall (Tier 0) (PScalar (VInt 1))]"
  by (simp add: engine_simps call_simps op_simps new_calls_def)

end
